theory Spec2Isabelle
  imports Complex_Main
begin

section \<open>JavaScript numbers\<close>

text \<open>
  A JavaScript number is a double. The embedding keeps the four kinds of value the
  operators of the content script distinguish: a finite number, the two infinities and
  NaN. A finite number is an exact real: rounding to 53 bits, overflow to an infinity
  and the sign of zero are not part of the model.
\<close>

datatype jsnum = Num real | PInf | NInf | NaN

text \<open>\<open>a < b\<close>: false as soon as one side is NaN.\<close>

fun js_lt :: "jsnum \<Rightarrow> jsnum \<Rightarrow> bool" where
  "js_lt NaN b = False"
| "js_lt a NaN = False"
| "js_lt (Num x) (Num y) = (x < y)"
| "js_lt (Num x) PInf = True"
| "js_lt NInf (Num y) = True"
| "js_lt NInf PInf = True"
| "js_lt a b = False"

text \<open>\<open>a > b\<close> is \<open>b < a\<close>.\<close>

definition js_gt :: "jsnum \<Rightarrow> jsnum \<Rightarrow> bool" where
  "js_gt a b = js_lt b a"

text \<open>\<open>a >= b\<close>: false when one side is NaN, and otherwise the negation of \<open>a < b\<close>.\<close>

definition js_ge :: "jsnum \<Rightarrow> jsnum \<Rightarrow> bool" where
  "js_ge a b = (a \<noteq> NaN \<and> b \<noteq> NaN \<and> \<not> js_lt a b)"

text \<open>The sign of a number that is not NaN, used by the product with an infinity.\<close>

fun js_sign :: "jsnum \<Rightarrow> int" where
  "js_sign (Num x) = (if x < 0 then -1 else if x = 0 then 0 else 1)"
| "js_sign PInf = 1"
| "js_sign NInf = -1"
| "js_sign NaN = 0"

text \<open>\<open>a * b\<close>: an infinity times zero is NaN.\<close>

fun js_mul :: "jsnum \<Rightarrow> jsnum \<Rightarrow> jsnum" where
  "js_mul NaN b = NaN"
| "js_mul a NaN = NaN"
| "js_mul (Num x) (Num y) = Num (x * y)"
| "js_mul a b =
     (if js_sign a * js_sign b = 0 then NaN
      else if js_sign a * js_sign b > 0 then PInf else NInf)"

text \<open>\<open>a + b\<close>: the sum of the two opposite infinities is NaN.\<close>

fun js_add :: "jsnum \<Rightarrow> jsnum \<Rightarrow> jsnum" where
  "js_add NaN b = NaN"
| "js_add a NaN = NaN"
| "js_add (Num x) (Num y) = Num (x + y)"
| "js_add PInf NInf = NaN"
| "js_add NInf PInf = NaN"
| "js_add (Num x) b = b"
| "js_add a b = a"

text \<open>
  \<open>a / c\<close> and \<open>a % c\<close> for a literal divisor \<open>c\<close> that is finite and positive: the
  script divides by 100, 3600 and 60 only. The remainder takes the sign of the dividend
  (the quotient is truncated); the remainder of an infinity is NaN.
\<close>

fun js_div :: "jsnum \<Rightarrow> real \<Rightarrow> jsnum" where
  "js_div (Num x) c = Num (x / c)"
| "js_div a c = a"

definition fmod :: "real \<Rightarrow> real \<Rightarrow> real" where
  "fmod x c = x - c * of_int (if 0 \<le> x then \<lfloor>x / c\<rfloor> else \<lceil>x / c\<rceil>)"

fun js_mod :: "jsnum \<Rightarrow> real \<Rightarrow> jsnum" where
  "js_mod (Num x) c = Num (fmod x c)"
| "js_mod a c = NaN"

text \<open>
  \<open>Math.floor\<close>, and \<open>Math.round\<close>, which rounds to the nearest integer and a tie
  towards plus infinity.
\<close>

fun Math_floor :: "jsnum \<Rightarrow> jsnum" where
  "Math_floor (Num x) = Num (of_int \<lfloor>x\<rfloor>)"
| "Math_floor a = a"

fun Math_round :: "jsnum \<Rightarrow> jsnum" where
  "Math_round (Num x) = Num (of_int \<lfloor>x + 1 / 2\<rfloor>)"
| "Math_round a = a"

section \<open>Strings of digits\<close>

definition is_digit :: "char \<Rightarrow> bool" where
  "is_digit c = (c \<in> set ''0123456789'')"

definition digit_val :: "char \<Rightarrow> nat" where
  "digit_val c = of_char c - 48"

definition digit_char :: "nat \<Rightarrow> char" where
  "digit_char d = char_of (48 + d)"

text \<open>The value of a string of decimal digits, most significant digit first.\<close>

definition dec_val :: "string \<Rightarrow> nat" where
  "dec_val s = foldl (\<lambda>a c. 10 * a + digit_val c) 0 s"

text \<open>The decimal digits of a natural number, with no leading zero.\<close>

fun show_nat :: "nat \<Rightarrow> string" where
  "show_nat n = (if n < 10 then [digit_char n] else show_nat (n div 10) @ [digit_char (n mod 10)])"

declare show_nat.simps [simp del]

text \<open>
  \<open>Number(s)\<close> on a string. On a non-empty string of ASCII digits it is the decimal
  value. Every other string (empty, padded with white space, signed, with a fraction or
  an exponent, hexadecimal, \<open>Infinity\<close>, or not a number at all) is outside this
  embedding: there the model answers \<open>None\<close>, which stands for no JavaScript value.
\<close>

definition js_Number :: "string \<Rightarrow> jsnum option" where
  "js_Number s =
     (if s \<noteq> [] \<and> list_all is_digit s then Some (Num (of_nat (dec_val s))) else None)"

text \<open>
  \<open>String(x)\<close> as a template literal renders a number. An integer of magnitude
  below \<open>10^21\<close> is rendered in plain decimal, a negative one behind a minus sign.
  A finite number that is not an integer, or one of magnitude \<open>10^21\<close> and beyond
  (rendered with an exponent), is outside this embedding: \<open>None\<close>.
\<close>

fun js_String :: "jsnum \<Rightarrow> string option" where
  "js_String NaN = Some ''NaN''"
| "js_String PInf = Some ''Infinity''"
| "js_String NInf = Some ''-Infinity''"
| "js_String (Num x) =
     (if x = of_int \<lfloor>x\<rfloor> \<and> \<bar>x\<bar> < 10 ^ 21
      then Some ((if x < 0 then ''-'' else []) @ show_nat (nat \<bar>\<lfloor>x\<rfloor>\<bar>))
      else None)"

text \<open>\<open>s.padStart(2, '0')\<close>.\<close>

definition padStart2 :: "string \<Rightarrow> string" where
  "padStart2 s = replicate (2 - length s) (CHR ''0'') @ s"

text \<open>\<open>s.split(":")\<close>: the pieces between the colons; a string with no colon is one piece.\<close>

fun split_colon :: "string \<Rightarrow> string list" where
  "split_colon [] = [[]]"
| "split_colon (c # cs) =
     (if c = CHR '':'' then [] # split_colon cs
      else (c # hd (split_colon cs)) # tl (split_colon cs))"

section \<open>Regular expressions\<close>

text \<open>
  The fragment of regular expressions \<open>hmsRegex\<close> is written in. \<open>RegExp.test\<close> on a
  pattern anchored by \<open>^\<close> and \<open>$\<close> (no flag) asks whether the whole string is a word of the
  pattern; \<open>regex_test\<close> decides that by derivatives.
\<close>

datatype regex =
    Null
  | Eps
  | Digit
  | Lit char
  | Or regex regex
  | Cat regex regex
  | Star regex

text \<open>\<open>r+\<close>, \<open>r{n}\<close> and \<open>r{m,n}\<close>.\<close>

definition Plus :: "regex \<Rightarrow> regex" where
  "Plus r = Cat r (Star r)"

primrec Times :: "nat \<Rightarrow> regex \<Rightarrow> regex" where
  "Times 0 r = Eps"
| "Times (Suc n) r = Cat r (Times n r)"

primrec UpTo :: "nat \<Rightarrow> regex \<Rightarrow> regex" where
  "UpTo 0 r = Eps"
| "UpTo (Suc n) r = Or Eps (Cat r (UpTo n r))"

definition Between :: "nat \<Rightarrow> nat \<Rightarrow> regex \<Rightarrow> regex" where
  "Between m n r = Cat (Times m r) (UpTo (n - m) r)"

primrec nullable :: "regex \<Rightarrow> bool" where
  "nullable Null = False"
| "nullable Eps = True"
| "nullable Digit = False"
| "nullable (Lit c) = False"
| "nullable (Or r s) = (nullable r \<or> nullable s)"
| "nullable (Cat r s) = (nullable r \<and> nullable s)"
| "nullable (Star r) = True"

primrec deriv :: "char \<Rightarrow> regex \<Rightarrow> regex" where
  "deriv a Null = Null"
| "deriv a Eps = Null"
| "deriv a Digit = (if is_digit a then Eps else Null)"
| "deriv a (Lit c) = (if a = c then Eps else Null)"
| "deriv a (Or r s) = Or (deriv a r) (deriv a s)"
| "deriv a (Cat r s) =
     (if nullable r then Or (Cat (deriv a r) s) (deriv a s) else Cat (deriv a r) s)"
| "deriv a (Star r) = Cat (deriv a r) (Star r)"

primrec regex_test :: "regex \<Rightarrow> string \<Rightarrow> bool" where
  "regex_test r [] = nullable r"
| "regex_test r (a # w) = regex_test (deriv a r) w"




section \<open>Timestamp helpers of the content script\<close>

text \<open>\<open>/^(\d+:\d{2}:\d{2}|\d{1,2}:\d{2})$/\<close>\<close>

definition hmsRegex :: regex where
  "hmsRegex =
     Or (Cat (Plus Digit) (Cat (Lit (CHR '':'')) (Cat (Times 2 Digit)
           (Cat (Lit (CHR '':'')) (Times 2 Digit)))))
        (Cat (Between 1 2 Digit) (Cat (Lit (CHR '':'')) (Times 2 Digit)))"

definition isValidHMSFormat :: "string \<Rightarrow> bool" where
  "isValidHMSFormat input = regex_test hmsRegex input"

text \<open>
  The loop \<open>while (a.length < 3) a.unshift(0)\<close>, which \<open>timestampToArray\<close> and
  \<open>arrayToTimestamp\<close> both run on their array.
\<close>

function unshift_zeros :: "jsnum list \<Rightarrow> jsnum list" where
  "unshift_zeros a = (if length a < 3 then unshift_zeros (Num 0 # a) else a)"
  by pat_completeness auto
termination
  by (relation "measure (\<lambda>a. 3 - length a)") auto

declare unshift_zeros.simps [simp del]

text \<open>
  \<open>timestampToArray\<close>: split at the colons, \<open>Number\<close> on every piece, zeros in front
  up to three entries. \<open>None\<close> when a piece is a string \<open>js_Number\<close> does not model.
\<close>

definition timestampToArray :: "string \<Rightarrow> jsnum list option" where
  "timestampToArray timestamp =
     map_option unshift_zeros (those (map js_Number (split_colon timestamp)))"

text \<open>
  \<open>arrayToTimestamp\<close>: the first three entries after the zeros are put in front;
  hours, a colon and the two padded fields when \<open>hours > 0\<close>, and otherwise the
  minutes as they print and the padded seconds. \<open>None\<close> when a field that is printed
  is a number \<open>js_String\<close> does not model.
\<close>

definition arrayToTimestamp :: "jsnum list \<Rightarrow> string option" where
  "arrayToTimestamp timeArray =
     (let a = unshift_zeros timeArray;
          hours = a ! 0; minutes = a ! 1; seconds = a ! 2
      in if js_gt hours (Num 0)
         then (case (js_String hours, js_String minutes, js_String seconds) of
                 (Some h, Some m, Some s) \<Rightarrow>
                   Some (h @ '':'' @ padStart2 m @ '':'' @ padStart2 s)
               | _ \<Rightarrow> None)
         else (case (js_String minutes, js_String seconds) of
                 (Some m, Some s) \<Rightarrow> Some (m @ '':'' @ padStart2 s)
               | _ \<Rightarrow> None))"

definition percentageOfTimestamp :: "jsnum \<Rightarrow> jsnum \<Rightarrow> string option" where
  "percentageOfTimestamp totalSeconds n =
     (if js_lt n (Num 0) \<or> js_gt n (Num 100) then Some ''number not valid''
      else
        let dividedSeconds = js_mul totalSeconds (js_div n 100);
            newHours = Math_floor (js_div dividedSeconds 3600);
            remainderAfterHours = js_mod dividedSeconds 3600;
            newMinutes = Math_floor (js_div remainderAfterHours 60);
            newSeconds = Math_round (js_mod remainderAfterHours 60)
        in arrayToTimestamp [newHours, newMinutes, newSeconds])"

text \<open>
  The end of \<open>attachPanelListeners\<close>: the text put into the timestamp field of a new
  panel, computed from \<open>video.duration\<close>.
\<close>

definition defaultTimestamp :: "jsnum \<Rightarrow> string option" where
  "defaultTimestamp totalSeconds =
     (let hours = Math_floor (js_div totalSeconds 3600);
          minutes = Math_floor (js_div (js_mod totalSeconds 3600) 60);
          seconds = Math_round (js_mod totalSeconds 60)
      in arrayToTimestamp [hours, minutes, seconds])"

section \<open>The page: video elements, timers, panel\<close>

text \<open>
  What the content script reads and writes. Video elements are numbered; \<open>docVideo\<close>
  is the one \<open>document.querySelector('video')\<close> finds, if any. \<open>timers\<close> is the
  browser's list of active intervals: a handle with the closure of its callback, which
  holds the video element and the target time of the call that made it. \<open>setInterval\<close>
  hands out \<open>nextHandle\<close> and counts it up, so no handle is handed out twice. The panel is its presence in the document; its markup and
  the text of its fields are not part of the state. \<open>effects\<close> records, in order, the
  calls the script makes on the video, the timer interface and the console.
\<close>

record video =
  currentTime :: jsnum
  duration :: jsnum
  paused :: bool

datatype message =
    TimerStopped
  | SettingTimer jsnum
  | VideoPaused jsnum
  | NoVideoElement
  | InvalidTimestampFormat
  | InvalidPercentage
  | PanelAlreadyExists

datatype effect =
    PauseCommand nat
  | SetInterval nat
  | ClearInterval nat
  | ConsoleLog message
  | ConsoleError message

record page =
  pauseIntervalId :: "nat option"
  timers :: "(nat \<times> nat \<times> jsnum) list"
  nextHandle :: nat
  docVideo :: "nat option"
  elements :: "nat \<Rightarrow> video"
  panelPresent :: bool
  isPanelVisible :: "bool option"
  effects :: "effect list"

definition emit :: "effect list \<Rightarrow> page \<Rightarrow> page" where
  "emit es s = s\<lparr>effects := effects s @ es\<rparr>"

definition findVideo :: "page \<Rightarrow> nat option" where
  "findVideo s = docVideo s"

definition clearInterval :: "nat \<Rightarrow> (nat \<times> nat \<times> jsnum) list \<Rightarrow> (nat \<times> nat \<times> jsnum) list" where
  "clearInterval h ts = filter (\<lambda>e. fst e \<noteq> h) ts"

definition stopPauseTimer :: "page \<Rightarrow> page" where
  "stopPauseTimer s =
     (case pauseIntervalId s of
        None \<Rightarrow> s
      | Some h \<Rightarrow>
          emit [ClearInterval h, ConsoleLog TimerStopped]
            (s\<lparr>timers := clearInterval h (timers s), pauseIntervalId := None\<rparr>))"

definition startPauseTimer :: "jsnum \<Rightarrow> page \<Rightarrow> page" where
  "startPauseTimer targetTime s =
     (let s1 = stopPauseTimer s in
      case findVideo s1 of
        None \<Rightarrow> emit [ConsoleError NoVideoElement] s1
      | Some v \<Rightarrow>
          let s2 = emit [ConsoleLog (SettingTimer targetTime)] s1;
              h = nextHandle s2
          in emit [SetInterval h]
               (s2\<lparr>timers := timers s2 @ [(h, v, targetTime)],
                   nextHandle := Suc h,
                   pauseIntervalId := Some h\<rparr>))"

text \<open>The body of the interval's callback, for the element and target it closed over.\<close>

definition timerCallback :: "nat \<Rightarrow> jsnum \<Rightarrow> page \<Rightarrow> page" where
  "timerCallback v targetTime s =
     (if js_ge (currentTime (elements s v)) targetTime
      then
        let s1 = emit [PauseCommand v]
                   (s\<lparr>elements := (elements s)(v := (elements s v)\<lparr>paused := True\<rparr>)\<rparr>);
            s2 = stopPauseTimer s1
        in emit [ConsoleLog (VideoPaused (currentTime (elements s2 v)))] s2
      else s)"

text \<open>
  The browser fires the interval with handle \<open>h\<close>: its callback runs if the interval is
  active, and a cleared interval does not fire.
\<close>

definition tick :: "nat \<Rightarrow> page \<Rightarrow> page" where
  "tick h s =
     (case map_of (timers s) h of
        None \<Rightarrow> s
      | Some (v, targetTime) \<Rightarrow> timerCallback v targetTime s)"

text \<open>
  \<open>parts[0] * 3600 + parts[1] * 60 + parts[2]\<close>, the total the click handler of the
  timestamp button computes. \<open>parts[i]\<close> is read below the length \<open>unshift_zeros\<close>
  guarantees.
\<close>

definition totalSeconds :: "jsnum list \<Rightarrow> jsnum" where
  "totalSeconds parts =
     js_add (js_add (js_mul (parts ! 0) (Num 3600)) (js_mul (parts ! 1) (Num 60))) (parts ! 2)"



definition injectPanel :: "page \<Rightarrow> page" where
  "injectPanel s =
     (if panelPresent s then emit [ConsoleLog PanelAlreadyExists] s
      else s\<lparr>panelPresent := True\<rparr>)"

text \<open>The click handler of the close button.\<close>

definition clickClosePanel :: "page \<Rightarrow> page" where
  "clickClosePanel s = s\<lparr>panelPresent := False, isPanelVisible := Some False\<rparr>"

text \<open>
  The listener of \<open>chrome.runtime.onMessage\<close>, on the \<open>action\<close> of the request. The
  write to \<open>chrome.storage.local\<close> takes effect at once in the model.
\<close>

definition onMessage :: "string \<Rightarrow> page \<Rightarrow> page" where
  "onMessage action s =
     (if action = ''togglePanel''
      then
        if panelPresent s
        then s\<lparr>panelPresent := False, isPanelVisible := Some False\<rparr>
        else (injectPanel s)\<lparr>isPanelVisible := Some True\<rparr>
      else s)"

text \<open>The page as the content script finds it when it is loaded.\<close>

definition initial :: "nat option \<Rightarrow> (nat \<Rightarrow> video) \<Rightarrow> bool option \<Rightarrow> page" where
  "initial dv els vis =
     \<lparr>pauseIntervalId = None, timers = [], nextHandle = 1, docVideo = dv, elements = els,
      panelPresent = False, isPanelVisible = vis, effects = []\<rparr>"

section \<open>Runs\<close>

text \<open>
  What can happen to the page, one event at a time: a call of the scheduler, a tick
  of an interval, and the page or the user moving the playback position, resuming
  playback, or changing the video element of the document. The 250 ms between two
  ticks are not part of the model: a tick is an event like the others.
\<close>

datatype event =
    Schedule jsnum
  | Cancel
  | Tick nat
  | Seek nat jsnum
  | Play nat
  | SetDocVideo "nat option"

fun step :: "page \<Rightarrow> event \<Rightarrow> page" where
  "step s (Schedule t) = startPauseTimer t s"
| "step s Cancel = stopPauseTimer s"
| "step s (Tick h) = tick h s"
| "step s (Seek v t) = s\<lparr>elements := (elements s)(v := (elements s v)\<lparr>currentTime := t\<rparr>)\<rparr>"
| "step s (Play v) = s\<lparr>elements := (elements s)(v := (elements s v)\<lparr>paused := False\<rparr>)\<rparr>"
| "step s (SetDocVideo dv) = s\<lparr>docVideo := dv\<rparr>"

definition run :: "page \<Rightarrow> event list \<Rightarrow> page" where
  "run s evs = foldl step s evs"

fun is_call :: "event \<Rightarrow> bool" where
  "is_call (Schedule t) = True"
| "is_call Cancel = True"
| "is_call e = False"

fun is_tick :: "event \<Rightarrow> bool" where
  "is_tick (Tick h) = True"
| "is_tick e = False"

definition is_env :: "event \<Rightarrow> bool" where
  "is_env e = (\<not> is_call e \<and> \<not> is_tick e)"

fun is_pause :: "effect \<Rightarrow> bool" where
  "is_pause (PauseCommand v) = True"
| "is_pause e = False"

text \<open>The pause commands issued so far.\<close>

definition pauses :: "page \<Rightarrow> effect list" where
  "pauses s = filter is_pause (effects s)"

text \<open>
  The two states of the scheduler. Idle: the slot is null and no interval is active.
  Armed: the slot holds the handle of the one active interval.
\<close>

definition Idle :: "page \<Rightarrow> bool" where
  "Idle s = (pauseIntervalId s = None \<and> timers s = [])"

definition Armed :: "page \<Rightarrow> nat \<Rightarrow> nat \<Rightarrow> jsnum \<Rightarrow> bool" where
  "Armed s h v t = (pauseIntervalId s = Some h \<and> timers s = [(h, v, t)])"

definition sched_inv :: "page \<Rightarrow> bool" where
  "sched_inv s =
     (map fst (timers s) = (case pauseIntervalId s of None \<Rightarrow> [] | Some h \<Rightarrow> [h]))"


definition shape_MS :: "string \<Rightarrow> string \<Rightarrow> bool" where
  "shape_MS m s =
     (length m \<in> {1, 2} \<and> list_all is_digit m \<and> length s = 2 \<and> list_all is_digit s)"

text \<open>A page to run the operations on: one video element, at position 0, not playing.\<close>

definition page0 :: page where
  "page0 =
     initial (Some 0) (\<lambda>v. \<lparr>currentTime = Num 0, duration = Num 100, paused = True\<rparr>) None"

text \<open>A retired handle: it was handed out before, and its interval is not active.\<close>

definition retired :: "nat \<Rightarrow> page \<Rightarrow> bool" where
  "retired h s = (h \<notin> fst ` set (timers s) \<and> h < nextHandle s)"

text \<open>The page \<open>page0\<close> after a call with target 100.\<close>

definition page_armed :: page where
  "page_armed = startPauseTimer (Num 100) page0"

section \<open>The matcher decides the words of a regular expression\<close>




















section \<open>Parsing a timestamp\<close>

lemma colon_not_digit: "\<not> is_digit (CHR '':'')"
  by (simp add: is_digit_def)

lemma digit_not_colon: "list_all is_digit w \<Longrightarrow> CHR '':'' \<notin> set w"
  using colon_not_digit by (auto simp: list_all_iff)

lemma split_colon_ne: "split_colon w \<noteq> []"
  by (induction w) auto

lemma split_colon_none: "CHR '':'' \<notin> set w \<Longrightarrow> split_colon w = [w]"
  by (induction w) auto

lemma split_colon_app:
  "CHR '':'' \<notin> set u \<Longrightarrow> split_colon (u @ CHR '':'' # w) = u # split_colon w"
  by (induction u) auto

lemma js_Number_digits:
  "w \<noteq> [] \<Longrightarrow> list_all is_digit w \<Longrightarrow> js_Number w = Some (Num (of_nat (dec_val w)))"
  by (simp add: js_Number_def)

lemma unshift_zeros_3: "unshift_zeros [a, b, c] = [a, b, c]"
  by (subst unshift_zeros.simps) simp

lemma unshift_zeros_2: "unshift_zeros [b, c] = [Num 0, b, c]"
  by (subst unshift_zeros.simps) (simp add: unshift_zeros_3)

lemma length_unshift_zeros: "3 \<le> length (unshift_zeros a)"
proof (induction a rule: unshift_zeros.induct)
  case (1 a)
  show ?case
  proof (cases "length a < 3")
    case True
    with "1" show ?thesis by (subst unshift_zeros.simps) simp
  next
    case False
    then show ?thesis by (subst unshift_zeros.simps) simp
  qed
qed


lemma timestampToArray_MS:
  assumes "length m \<in> {1, 2}" "list_all is_digit m" "length s = 2" "list_all is_digit s"
  shows "timestampToArray (m @ '':'' @ s) =
           Some [Num 0, Num (of_nat (dec_val m)), Num (of_nat (dec_val s))]"
proof -
  from assms have ne: "m \<noteq> []" "s \<noteq> []" by auto
  have "split_colon (m @ '':'' @ s) = [m, s]"
    using assms by (simp add: split_colon_app split_colon_none digit_not_colon)
  then show ?thesis
    using assms ne by (simp add: timestampToArray_def js_Number_digits unshift_zeros_2)
qed




section \<open>The scheduler\<close>

lemma emit_fields [simp]:
  "pauseIntervalId (emit es s) = pauseIntervalId s"
  "timers (emit es s) = timers s"
  "nextHandle (emit es s) = nextHandle s"
  "docVideo (emit es s) = docVideo s"
  "elements (emit es s) = elements s"
  "panelPresent (emit es s) = panelPresent s"
  "isPanelVisible (emit es s) = isPanelVisible s"
  "effects (emit es s) = effects s @ es"
  by (simp_all add: emit_def)

lemma pauses_emit [simp]: "pauses (emit es s) = pauses s @ filter is_pause es"
  by (simp add: pauses_def)

lemma stop_idle: "pauseIntervalId s = None \<Longrightarrow> stopPauseTimer s = s"
  by (simp add: stopPauseTimer_def)

lemma stop_fields:
  "pauseIntervalId (stopPauseTimer s) = None"
  "nextHandle (stopPauseTimer s) = nextHandle s"
  "docVideo (stopPauseTimer s) = docVideo s"
  "elements (stopPauseTimer s) = elements s"
  "panelPresent (stopPauseTimer s) = panelPresent s"
  "isPanelVisible (stopPauseTimer s) = isPanelVisible s"
  "pauses (stopPauseTimer s) = pauses s"
  by (simp_all add: stopPauseTimer_def pauses_def emit_def split: option.splits)

lemma stop_timers:
  "timers (stopPauseTimer s) =
     (case pauseIntervalId s of None \<Rightarrow> timers s | Some h \<Rightarrow> clearInterval h (timers s))"
  by (simp add: stopPauseTimer_def split: option.splits)

lemma stop_effects:
  "effects (stopPauseTimer s) =
     effects s @ (case pauseIntervalId s of None \<Rightarrow> []
                  | Some h \<Rightarrow> [ClearInterval h, ConsoleLog TimerStopped])"
  by (simp add: stopPauseTimer_def split: option.splits)

lemma stop_stop: "stopPauseTimer (stopPauseTimer s) = stopPauseTimer s"
  by (rule stop_idle) (rule stop_fields(1))

lemma clearInterval_absent: "h \<notin> fst ` set (clearInterval h ts)"
  by (auto simp: clearInterval_def)

lemma clearInterval_single: "clearInterval h [(h, v, t)] = []"
  by (simp add: clearInterval_def)

lemma inv_cases:
  "sched_inv s \<longleftrightarrow> Idle s \<or> (\<exists>h v t. Armed s h v t)"
  by (cases "pauseIntervalId s"; cases "timers s")
    (auto simp: sched_inv_def Idle_def Armed_def)

lemma stop_inv_idle: "sched_inv s \<Longrightarrow> Idle (stopPauseTimer s)"
  by (auto simp: inv_cases Idle_def Armed_def stop_fields stop_timers clearInterval_single)

lemma start_no_video:
  "docVideo s = None \<Longrightarrow>
     startPauseTimer t s = emit [ConsoleError NoVideoElement] (stopPauseTimer s)"
  by (simp add: startPauseTimer_def findVideo_def stop_fields)

lemma start_video_fields:
  assumes "docVideo s = Some v"
  shows "pauseIntervalId (startPauseTimer t s) = Some (nextHandle s)"
    "timers (startPauseTimer t s) = timers (stopPauseTimer s) @ [(nextHandle s, v, t)]"
    "nextHandle (startPauseTimer t s) = Suc (nextHandle s)"
    "effects (startPauseTimer t s) =
       effects (stopPauseTimer s) @ [ConsoleLog (SettingTimer t), SetInterval (nextHandle s)]"
  using assms by (simp_all add: startPauseTimer_def findVideo_def stop_fields Let_def)

lemma start_fields:
  "docVideo (startPauseTimer t s) = docVideo s"
  "elements (startPauseTimer t s) = elements s"
  "panelPresent (startPauseTimer t s) = panelPresent s"
  "isPanelVisible (startPauseTimer t s) = isPanelVisible s"
  "pauses (startPauseTimer t s) = pauses s"
  by (simp_all add: startPauseTimer_def findVideo_def stop_fields Let_def pauses_def
      stop_effects split: option.splits)

lemma start_armed:
  "sched_inv s \<Longrightarrow> docVideo s = Some v \<Longrightarrow> Armed (startPauseTimer t s) (nextHandle s) v t"
  using stop_inv_idle [of s] by (simp add: Armed_def start_video_fields Idle_def)

lemma start_idle:
  "sched_inv s \<Longrightarrow> docVideo s = None \<Longrightarrow> Idle (startPauseTimer t s)"
  using stop_inv_idle [of s] by (simp add: start_no_video Idle_def)

lemma tick_absent:
  assumes "h \<notin> fst ` set (timers s)"
  shows "tick h s = s"
proof -
  from assms have "map_of (timers s) h = None"
    by (simp add: map_of_eq_None_iff)
  then show ?thesis by (simp add: tick_def)
qed

lemma tick_armed_below:
  "Armed s h v t \<Longrightarrow> \<not> js_ge (currentTime (elements s v)) t \<Longrightarrow> tick h s = s"
  by (simp add: Armed_def tick_def timerCallback_def)

lemma tick_armed_reached:
  assumes "Armed s h v t" "js_ge (currentTime (elements s v)) t"
  shows "tick h s =
           emit [PauseCommand v, ClearInterval h, ConsoleLog TimerStopped,
                 ConsoleLog (VideoPaused (currentTime (elements s v)))]
             (s\<lparr>elements := (elements s)(v := (elements s v)\<lparr>paused := True\<rparr>),
                timers := [], pauseIntervalId := None\<rparr>)"
  using assms
  by (simp add: Armed_def tick_def timerCallback_def stopPauseTimer_def emit_def Let_def
      clearInterval_single)

lemma tick_fields:
  "nextHandle (tick h s) = nextHandle s"
  "docVideo (tick h s) = docVideo s"
  "panelPresent (tick h s) = panelPresent s"
  "isPanelVisible (tick h s) = isPanelVisible s"
  by (simp_all add: tick_def timerCallback_def Let_def stop_fields split: option.splits)

lemma tick_timers_subset: "fst ` set (timers (tick h s)) \<subseteq> fst ` set (timers s)"
  by (auto simp: tick_def timerCallback_def Let_def stop_timers clearInterval_def
      split: option.splits)

lemma stop_timers_subset: "fst ` set (timers (stopPauseTimer s)) \<subseteq> fst ` set (timers s)"
  by (auto simp: stop_timers clearInterval_def split: option.splits)

lemma start_timers_subset:
  "fst ` set (timers (startPauseTimer t s)) \<subseteq> insert (nextHandle s) (fst ` set (timers s))"
proof (cases "docVideo s")
  case None
  then show ?thesis using stop_timers_subset [of s] by (auto simp: start_no_video)
next
  case (Some v)
  then show ?thesis using stop_timers_subset [of s] by (auto simp: start_video_fields)
qed

lemma start_nextHandle: "nextHandle s \<le> nextHandle (startPauseTimer t s)"
  by (cases "docVideo s") (simp_all add: start_no_video start_video_fields stop_fields)

lemma retired_step: "retired h s \<Longrightarrow> retired h (step s e)"
proof (cases e)
  case (Schedule t)
  assume "retired h s"
  then show ?thesis
    using start_timers_subset [of t s] start_nextHandle [of s t]
    by (auto simp: retired_def Schedule)
next
  case Cancel
  assume "retired h s"
  then show ?thesis
    using stop_timers_subset [of s] by (auto simp: retired_def Cancel stop_fields)
next
  case (Tick k)
  assume "retired h s"
  then show ?thesis
    using tick_timers_subset [of k s] by (auto simp: retired_def Tick tick_fields)
qed (auto simp: retired_def)

lemma retired_run: "retired h s \<Longrightarrow> retired h (run s evs)"
  unfolding run_def by (induction evs arbitrary: s) (simp_all add: retired_step)

lemma env_step_fields:
  assumes "is_env e"
  shows "pauseIntervalId (step s e) = pauseIntervalId s"
    "timers (step s e) = timers s"
    "nextHandle (step s e) = nextHandle s"
    "effects (step s e) = effects s"
  using assms by (cases e; simp add: is_env_def)+

lemma env_run_fields:
  assumes "list_all is_env evs"
  shows "pauseIntervalId (run s evs) = pauseIntervalId s \<and>
    timers (run s evs) = timers s \<and>
    nextHandle (run s evs) = nextHandle s \<and>
    effects (run s evs) = effects s"
  using assms unfolding run_def
  by (induction evs arbitrary: s) (simp_all add: env_step_fields)

lemma page0_facts:
  "pauseIntervalId page0 = None" "timers page0 = []" "nextHandle page0 = 1"
  "docVideo page0 = Some 0" "effects page0 = []"
  "elements page0 v = \<lparr>currentTime = Num 0, duration = Num 100, paused = True\<rparr>"
  by (simp_all add: page0_def initial_def)

lemma page0_inv: "sched_inv page0" "Idle page0"
  by (simp_all add: sched_inv_def Idle_def page0_facts)

text \<open>
  C8. \<open>stopPauseTimer\<close> is idempotent: a second call changes nothing, and after
  each of the two calls the slot is null. From Idle it is the identity; from Armed it
  clears the interval, logs that the timer was stopped, issues no pause and leaves the
  scheduler Idle. The function has no failing branch.
\<close>

theorem cancel_is_idempotent:
  "stopPauseTimer (stopPauseTimer s) = stopPauseTimer s \<and>
   pauseIntervalId (stopPauseTimer s) = None \<and>
   pauseIntervalId (stopPauseTimer (stopPauseTimer s)) = None \<and>
   (Idle s \<longrightarrow> stopPauseTimer s = s) \<and>
   (Armed s h v t \<longrightarrow>
      Idle (stopPauseTimer s) \<and>
      effects (stopPauseTimer s) = effects s @ [ClearInterval h, ConsoleLog TimerStopped] \<and>
      pauses (stopPauseTimer s) = pauses s)"
  by (simp add: stop_stop stop_fields stop_idle Idle_def Armed_def stop_timers stop_effects
      clearInterval_single)

theorem cancel_is_idempotent_witness:
  "Idle page0 \<and> stopPauseTimer page0 = page0 \<and>
   Armed (startPauseTimer (Num 5) page0) 1 0 (Num 5) \<and>
   Idle (stopPauseTimer (startPauseTimer (Num 5) page0)) \<and>
   Idle (stopPauseTimer (stopPauseTimer (startPauseTimer (Num 5) page0)))"
proof -
  have a: "Armed (startPauseTimer (Num 5) page0) 1 0 (Num 5)"
    using start_armed [of page0 0 "Num 5"] by (simp add: page0_inv page0_facts)
  from a page0_inv(2)
    cancel_is_idempotent [of page0]
    cancel_is_idempotent [of "startPauseTimer (Num 5) page0" 1 0 "Num 5"]
  show ?thesis by simp
qed

text \<open>
  C6. When the document has no video element, \<open>startPauseTimer\<close> is
  \<open>stopPauseTimer\<close> followed by one error line on the console: the slot is null, no
  interval is created (no handle is handed out, the active intervals are those that
  \<open>stopPauseTimer\<close> left), no pause is issued and no video element changes. From a
  scheduler that is Idle or Armed the result is Idle, and a later call, once a video
  element is there, arms the scheduler.
\<close>

theorem schedule_without_video_stays_idle:
  "docVideo s = None \<longrightarrow>
     startPauseTimer t s = emit [ConsoleError NoVideoElement] (stopPauseTimer s) \<and>
     pauseIntervalId (startPauseTimer t s) = None \<and>
     timers (startPauseTimer t s) = timers (stopPauseTimer s) \<and>
     fst ` set (timers (startPauseTimer t s)) \<subseteq> fst ` set (timers s) \<and>
     nextHandle (startPauseTimer t s) = nextHandle s \<and>
     pauses (startPauseTimer t s) = pauses s \<and>
     elements (startPauseTimer t s) = elements s \<and>
     (sched_inv s \<longrightarrow>
        Idle (startPauseTimer t s) \<and>
        Armed (startPauseTimer t' ((startPauseTimer t s)\<lparr>docVideo := Some v\<rparr>))
          (nextHandle s) v t')"
proof
  assume nv: "docVideo s = None"
  have eq: "startPauseTimer t s = emit [ConsoleError NoVideoElement] (stopPauseTimer s)"
    using nv by (rule start_no_video)
  have sub: "fst ` set (timers (startPauseTimer t s)) \<subseteq> fst ` set (timers s)"
    using stop_timers_subset [of s] by (simp add: eq)
  have retry: "Idle (startPauseTimer t s) \<and>
      Armed (startPauseTimer t' ((startPauseTimer t s)\<lparr>docVideo := Some v\<rparr>)) (nextHandle s) v t'"
    if inv: "sched_inv s"
  proof -
    have i: "Idle (startPauseTimer t s)" using inv nv by (rule start_idle)
    let ?s' = "(startPauseTimer t s)\<lparr>docVideo := Some v\<rparr>"
    have "sched_inv ?s'" using i by (simp add: sched_inv_def Idle_def)
    moreover have "docVideo ?s' = Some v" by simp
    ultimately have "Armed (startPauseTimer t' ?s') (nextHandle ?s') v t'"
      by (rule start_armed)
    moreover have "nextHandle ?s' = nextHandle s" by (simp add: eq stop_fields)
    ultimately show ?thesis using i by simp
  qed
  show "startPauseTimer t s = emit [ConsoleError NoVideoElement] (stopPauseTimer s) \<and>
     pauseIntervalId (startPauseTimer t s) = None \<and>
     timers (startPauseTimer t s) = timers (stopPauseTimer s) \<and>
     fst ` set (timers (startPauseTimer t s)) \<subseteq> fst ` set (timers s) \<and>
     nextHandle (startPauseTimer t s) = nextHandle s \<and>
     pauses (startPauseTimer t s) = pauses s \<and>
     elements (startPauseTimer t s) = elements s \<and>
     (sched_inv s \<longrightarrow>
        Idle (startPauseTimer t s) \<and>
        Armed (startPauseTimer t' ((startPauseTimer t s)\<lparr>docVideo := Some v\<rparr>))
          (nextHandle s) v t')"
    using sub retry by (simp add: eq stop_fields start_fields)
qed

text \<open>
  C3. A tick of the interval of an Armed scheduler reads the current time of the video
  element the task holds. When it is at or beyond the target (\<open>>=\<close>), the tick issues
  one pause command, clears the interval and the slot, and logs; the scheduler is Idle
  and a further tick of the same handle does nothing. Otherwise the tick changes
  nothing. After a jump of the position to any value at or beyond the target, one tick
  issues exactly one pause and leaves the scheduler Idle.
\<close>

theorem tick_pauses_once_at_or_after_target:
  "Armed s h v t \<longrightarrow>
     (js_ge (currentTime (elements s v)) t \<longrightarrow>
        tick h s =
          emit [PauseCommand v, ClearInterval h, ConsoleLog TimerStopped,
                ConsoleLog (VideoPaused (currentTime (elements s v)))]
            (s\<lparr>elements := (elements s)(v := (elements s v)\<lparr>paused := True\<rparr>),
               timers := [], pauseIntervalId := None\<rparr>) \<and>
        Idle (tick h s) \<and>
        pauses (tick h s) = pauses s @ [PauseCommand v] \<and>
        paused (elements (tick h s) v) \<and>
        tick h (tick h s) = tick h s) \<and>
     (\<not> js_ge (currentTime (elements s v)) t \<longrightarrow> tick h s = s) \<and>
     (js_ge c t \<longrightarrow>
        Idle (tick h (step s (Seek v c))) \<and>
        pauses (tick h (step s (Seek v c))) = pauses s @ [PauseCommand v])"
proof
  assume a: "Armed s h v t"
  have reached: "tick h s =
          emit [PauseCommand v, ClearInterval h, ConsoleLog TimerStopped,
                ConsoleLog (VideoPaused (currentTime (elements s v)))]
            (s\<lparr>elements := (elements s)(v := (elements s v)\<lparr>paused := True\<rparr>),
               timers := [], pauseIntervalId := None\<rparr>) \<and>
        Idle (tick h s) \<and>
        pauses (tick h s) = pauses s @ [PauseCommand v] \<and>
        paused (elements (tick h s) v) \<and>
        tick h (tick h s) = tick h s"
    if g: "js_ge (currentTime (elements s v)) t"
  proof -
    note eq = tick_armed_reached [OF a g]
    have i: "Idle (tick h s)" by (simp add: eq Idle_def)
    then have "h \<notin> fst ` set (timers (tick h s))" by (simp add: Idle_def)
    then have "tick h (tick h s) = tick h s" by (rule tick_absent)
    moreover have "pauses (tick h s) = pauses s @ [PauseCommand v]"
      by (simp add: eq pauses_def emit_def)
    moreover have "paused (elements (tick h s) v)" by (simp add: eq)
    ultimately show ?thesis using i eq by simp
  qed
  have jump: "Idle (tick h (step s (Seek v c))) \<and>
        pauses (tick h (step s (Seek v c))) = pauses s @ [PauseCommand v]"
    if g: "js_ge c t"
  proof -
    define s' where "s' = step s (Seek v c)"
    have a': "Armed s' h v t" using a by (simp add: Armed_def s'_def)
    have g': "js_ge (currentTime (elements s' v)) t" using g by (simp add: s'_def)
    have p: "pauses s' = pauses s" by (simp add: pauses_def s'_def)
    note eq = tick_armed_reached [OF a' g']
    have "Idle (tick h s')" by (simp add: eq Idle_def)
    moreover have "pauses (tick h s') = pauses s @ [PauseCommand v]"
      using p by (simp add: eq pauses_def emit_def)
    ultimately show ?thesis by (simp add: s'_def)
  qed
  from reached jump tick_armed_below [OF a]
  show "(js_ge (currentTime (elements s v)) t \<longrightarrow>
        tick h s =
          emit [PauseCommand v, ClearInterval h, ConsoleLog TimerStopped,
                ConsoleLog (VideoPaused (currentTime (elements s v)))]
            (s\<lparr>elements := (elements s)(v := (elements s v)\<lparr>paused := True\<rparr>),
               timers := [], pauseIntervalId := None\<rparr>) \<and>
        Idle (tick h s) \<and>
        pauses (tick h s) = pauses s @ [PauseCommand v] \<and>
        paused (elements (tick h s) v) \<and>
        tick h (tick h s) = tick h s) \<and>
     (\<not> js_ge (currentTime (elements s v)) t \<longrightarrow> tick h s = s) \<and>
     (js_ge c t \<longrightarrow>
        Idle (tick h (step s (Seek v c))) \<and>
        pauses (tick h (step s (Seek v c))) = pauses s @ [PauseCommand v])"
    by blast
qed

lemma js_ge_below_zero:
  assumes "js_lt t (Num 0)" "js_ge c (Num 0)"
  shows "js_ge c t"
  using assms by (cases t; cases c) (auto simp: js_ge_def)

lemma js_ge_NaN: "\<not> js_ge c NaN"
  by (simp add: js_ge_def)

lemma tick_other:
  assumes "Armed s h v t" "k \<noteq> h"
  shows "tick k s = s"
  using assms by (simp add: Armed_def tick_def)

lemma idle_tick: "Idle s \<Longrightarrow> tick k s = s"
  by (simp add: Idle_def tick_def)

lemma noncall_step_armed_or_idle:
  assumes "Armed s h v t \<or> Idle s" "\<not> is_call e"
  shows "Armed (step s e) h v t \<or> Idle (step s e)"
proof (cases e)
  case (Tick k)
  show ?thesis
  proof (cases "Idle s")
    case True
    then show ?thesis by (simp add: Tick idle_tick)
  next
    case False
    with assms(1) have a: "Armed s h v t" by simp
    show ?thesis
    proof (cases "k = h \<and> js_ge (currentTime (elements s v)) t")
      case True
      then have "Idle (tick h s)"
        using tick_armed_reached [OF a] by (simp add: Idle_def)
      with True show ?thesis by (simp add: Tick)
    next
      case False
      then have "tick k s = s"
        using tick_other [OF a, of k] tick_armed_below [OF a] by blast
      with a show ?thesis by (simp add: Tick)
    qed
  qed
qed (use assms in \<open>auto simp: Armed_def Idle_def\<close>)

lemma noncall_run_armed_or_idle:
  assumes "Armed s h v t \<or> Idle s" "list_all (\<lambda>e. \<not> is_call e) evs"
  shows "Armed (run s evs) h v t \<or> Idle (run s evs)"
  using assms unfolding run_def
proof (induction evs arbitrary: s)
  case Nil
  then show ?case by simp
next
  case (Cons e evs)
  from Cons.prems have "Armed (step s e) h v t \<or> Idle (step s e)"
    using noncall_step_armed_or_idle [of s h v t e] by simp
  with Cons show ?case by simp
qed

lemma idle_step:
  assumes "Idle s" "\<not> is_call e"
  shows "Idle (step s e)"
  using assms by (cases e) (auto simp: Idle_def idle_tick)

lemma idle_run:
  assumes "Idle s" "list_all (\<lambda>e. \<not> is_call e) evs"
  shows "Idle (run s evs)"
  using assms unfolding run_def
  by (induction evs arbitrary: s) (simp_all add: idle_step)

lemma nan_step:
  assumes "Armed s h v NaN" "\<not> is_call e"
  shows "Armed (step s e) h v NaN \<and> pauses (step s e) = pauses s"
proof (cases e)
  case (Tick k)
  have "tick k s = s"
    using tick_other [OF assms(1), of k] tick_armed_below [OF assms(1)] js_ge_NaN by blast
  with assms(1) show ?thesis by (simp add: Tick)
qed (use assms in \<open>auto simp: Armed_def pauses_def\<close>)

lemma nan_run:
  assumes "Armed s h v NaN" "list_all (\<lambda>e. \<not> is_call e) evs"
  shows "Armed (run s evs) h v NaN \<and> pauses (run s evs) = pauses s"
  using assms unfolding run_def
proof (induction evs arbitrary: s)
  case Nil
  then show ?case by simp
next
  case (Cons e evs)
  from Cons.prems have st: "Armed (step s e) h v NaN \<and> pauses (step s e) = pauses s"
    using nan_step [of s h v e] by simp
  with Cons.IH [of "step s e"] Cons.prems show ?case by simp
qed

text \<open>
  C10. With a video element in the document, \<open>startPauseTimer\<close> arms the scheduler
  with whatever target it is given: there is no check of the argument. With a target
  below zero and a current time that is at least zero, the first tick pauses the video
  and leaves the scheduler Idle. With the target NaN the scheduler stays Armed and no
  pause is issued, through any sequence of ticks and of changes of the page that
  contains no call of the scheduler.
\<close>

theorem schedule_accepts_any_target:
  assumes "sched_inv s" "docVideo s = Some v"
  shows "Armed (startPauseTimer t s) (nextHandle s) v t \<and>
    (js_lt t (Num 0) \<and> js_ge (currentTime (elements s v)) (Num 0) \<longrightarrow>
       Idle (tick (nextHandle s) (startPauseTimer t s)) \<and>
       pauses (tick (nextHandle s) (startPauseTimer t s)) = pauses s @ [PauseCommand v]) \<and>
    (list_all (\<lambda>e. \<not> is_call e) evs \<longrightarrow>
       Armed (run (startPauseTimer NaN s) evs) (nextHandle s) v NaN \<and>
       pauses (run (startPauseTimer NaN s) evs) = pauses s)"
proof -
  have a: "Armed (startPauseTimer t s) (nextHandle s) v t" for t
    using assms by (rule start_armed)
  have neg: "Idle (tick (nextHandle s) (startPauseTimer t s)) \<and>
       pauses (tick (nextHandle s) (startPauseTimer t s)) = pauses s @ [PauseCommand v]"
    if "js_lt t (Num 0)" "js_ge (currentTime (elements s v)) (Num 0)"
  proof -
    from that have "js_ge (currentTime (elements (startPauseTimer t s) v)) t"
      by (simp add: start_fields js_ge_below_zero)
    from tick_armed_reached [OF a this] show ?thesis
      by (simp add: Idle_def pauses_def emit_def start_fields [unfolded pauses_def])
  qed
  have nan: "Armed (run (startPauseTimer NaN s) evs) (nextHandle s) v NaN \<and>
       pauses (run (startPauseTimer NaN s) evs) = pauses s"
    if "list_all (\<lambda>e. \<not> is_call e) evs"
    using nan_run [OF a [of NaN] that] by (simp add: start_fields)
  from a [of t] neg nan show ?thesis by blast
qed

text \<open>
  C1. A first call with target \<open>t1\<close> (a video element being present), then any
  changes of the playback position or of the page but no tick and no call, then a
  second call with target \<open>t2\<close>. Before the second call the slot holds the handle of
  the first task. Inside the second call the interval of the first task is cleared before
  the new one is set: the console and timer calls of the second call start with the
  \<open>clearInterval\<close> of the first handle, and the \<open>setInterval\<close> comes after. After the
  second call the first handle is not active, it is not active after any later events
  either, and a tick of it changes nothing. From an Idle or Armed scheduler the only
  active interval after the second call is the one of \<open>t2\<close>, and as long as no call
  is made the scheduler is Armed with \<open>t2\<close> or Idle.
\<close>

theorem rescheduling_retires_the_previous_task:
  assumes "list_all is_env between"
    and "docVideo s = Some v"
    and "s1 = run (startPauseTimer t1 s) between"
    and "s2 = startPauseTimer t2 s1"
  shows "pauseIntervalId s1 = Some (nextHandle s) \<and>
    (nextHandle s, v, t1) \<in> set (timers s1) \<and>
    effects s2 =
      effects s1 @ [ClearInterval (nextHandle s), ConsoleLog TimerStopped] @
        (case docVideo s1 of
           None \<Rightarrow> [ConsoleError NoVideoElement]
         | Some v' \<Rightarrow> [ConsoleLog (SettingTimer t2), SetInterval (Suc (nextHandle s))]) \<and>
    nextHandle s \<notin> fst ` set (timers s2) \<and>
    nextHandle s \<notin> fst ` set (timers (run s2 later)) \<and>
    tick (nextHandle s) (run s2 later) = run s2 later \<and>
    (sched_inv s \<longrightarrow>
       timers s2 =
         (case docVideo s1 of None \<Rightarrow> [] | Some v' \<Rightarrow> [(Suc (nextHandle s), v', t2)])) \<and>
    (sched_inv s \<and> list_all (\<lambda>e. \<not> is_call e) quiet \<longrightarrow>
       (case docVideo s1 of
          None \<Rightarrow> Idle (run s2 quiet)
        | Some v' \<Rightarrow>
            Armed (run s2 quiet) (Suc (nextHandle s)) v' t2 \<or> Idle (run s2 quiet)))"
proof -
  let ?h = "nextHandle s"
  let ?a = "startPauseTimer t1 s"
  note env = env_run_fields [OF assms(1), of ?a, folded assms(3)]
  note sv = start_video_fields [OF assms(2), of t1]
  have slot: "pauseIntervalId s1 = Some ?h" using env sv by simp
  have tm: "timers s1 = timers (stopPauseTimer s) @ [(?h, v, t1)]" using env sv by simp
  have nh: "nextHandle s1 = Suc ?h" using env sv by simp
  have mem: "(?h, v, t1) \<in> set (timers s1)" by (simp add: tm)
  have st: "timers (stopPauseTimer s1) = clearInterval ?h (timers s1)"
    by (simp add: stop_timers slot)
  have se: "effects (stopPauseTimer s1) = effects s1 @ [ClearInterval ?h, ConsoleLog TimerStopped]"
    by (simp add: stop_effects slot)
  have eff: "effects s2 =
      effects s1 @ [ClearInterval ?h, ConsoleLog TimerStopped] @
        (case docVideo s1 of
           None \<Rightarrow> [ConsoleError NoVideoElement]
         | Some v' \<Rightarrow> [ConsoleLog (SettingTimer t2), SetInterval (Suc ?h)])"
  proof (cases "docVideo s1")
    case None
    then show ?thesis by (simp add: assms(4) start_no_video se)
  next
    case (Some v')
    then show ?thesis by (simp add: assms(4) start_video_fields se nh)
  qed
  have t2: "timers s2 =
      clearInterval ?h (timers s1) @
        (case docVideo s1 of None \<Rightarrow> [] | Some v' \<Rightarrow> [(Suc ?h, v', t2)])"
  proof (cases "docVideo s1")
    case None
    then show ?thesis by (simp add: assms(4) start_no_video st)
  next
    case (Some v')
    then show ?thesis by (simp add: assms(4) start_video_fields st nh)
  qed
  have absent: "?h \<notin> fst ` set (timers s2)"
    using clearInterval_absent [of ?h "timers s1"]
    by (auto simp: t2 split: option.splits)
  have "?h < nextHandle s2"
    using start_nextHandle [of s1 t2] by (simp add: assms(4) nh)
  with absent have "retired ?h s2" by (simp add: retired_def)
  then have "retired ?h (run s2 later)" by (rule retired_run)
  then have later: "?h \<notin> fst ` set (timers (run s2 later))" by (simp add: retired_def)
  then have notick: "tick ?h (run s2 later) = run s2 later" by (rule tick_absent)
  have only: "timers s2 =
      (case docVideo s1 of None \<Rightarrow> [] | Some v' \<Rightarrow> [(Suc ?h, v', t2)])"
    if inv: "sched_inv s"
  proof -
    from inv have "Idle (stopPauseTimer s)" by (rule stop_inv_idle)
    then have "timers s1 = [(?h, v, t1)]" by (simp add: tm Idle_def)
    then show ?thesis by (simp add: t2 clearInterval_single)
  qed
  have quiet: "(case docVideo s1 of
          None \<Rightarrow> Idle (run s2 quiet)
        | Some v' \<Rightarrow> Armed (run s2 quiet) (Suc ?h) v' t2 \<or> Idle (run s2 quiet))"
    if inv: "sched_inv s" and q: "list_all (\<lambda>e. \<not> is_call e) quiet"
  proof (cases "docVideo s1")
    case None
    have "pauseIntervalId s2 = None"
      by (simp add: assms(4) start_no_video [OF None] stop_fields)
    with only [OF inv] None have "Idle s2" by (simp add: Idle_def)
    then have "Idle (run s2 quiet)" using q by (rule idle_run)
    with None show ?thesis by simp
  next
    case (Some v')
    have "pauseIntervalId s2 = Some (Suc ?h)"
      by (simp add: assms(4) start_video_fields [OF Some] nh)
    with only [OF inv] Some have "Armed s2 (Suc ?h) v' t2" by (simp add: Armed_def)
    then have "Armed s2 (Suc ?h) v' t2 \<or> Idle s2" by simp
    from noncall_run_armed_or_idle [OF this q] Some show ?thesis by simp
  qed
  from slot mem eff absent later notick only quiet show ?thesis by blast
qed

lemma page_armed_facts:
  "Armed page_armed 1 0 (Num 100)" "sched_inv page_armed" "nextHandle page_armed = 2"
  "docVideo page_armed = Some 0" "pauses page_armed = []"
  "elements page_armed v = \<lparr>currentTime = Num 0, duration = Num 100, paused = True\<rparr>"
proof -
  show a: "Armed page_armed 1 0 (Num 100)"
    using start_armed [of page0 0 "Num 100"] by (simp add: page_armed_def page0_inv page0_facts)
  then show "sched_inv page_armed" by (simp add: sched_inv_def Armed_def)
  show "nextHandle page_armed = 2"
    by (simp add: page_armed_def start_video_fields [of page0 0] page0_facts)
  show "docVideo page_armed = Some 0" by (simp add: page_armed_def start_fields page0_facts)
  show "pauses page_armed = []"
    by (simp add: page_armed_def start_fields) (simp add: pauses_def page0_facts)
  show "elements page_armed v = \<lparr>currentTime = Num 0, duration = Num 100, paused = True\<rparr>"
    by (simp add: page_armed_def start_fields page0_facts)
qed

theorem schedule_without_video_stays_idle_witness:
  "docVideo (page_armed\<lparr>docVideo := None\<rparr>) = None \<and>
   sched_inv (page_armed\<lparr>docVideo := None\<rparr>) \<and>
   pauseIntervalId (page_armed\<lparr>docVideo := None\<rparr>) = Some 1 \<and>
   Idle (startPauseTimer (Num 7) (page_armed\<lparr>docVideo := None\<rparr>)) \<and>
   pauses (startPauseTimer (Num 7) (page_armed\<lparr>docVideo := None\<rparr>)) = [] \<and>
   Armed (startPauseTimer (Num 9)
            ((startPauseTimer (Num 7) (page_armed\<lparr>docVideo := None\<rparr>))\<lparr>docVideo := Some 0\<rparr>))
     2 0 (Num 9)"
proof -
  let ?s = "page_armed\<lparr>docVideo := None\<rparr>"
  have h: "docVideo ?s = None" "sched_inv ?s" "pauseIntervalId ?s = Some 1"
    "nextHandle ?s = 2" "pauses ?s = []"
    using page_armed_facts by (simp_all add: sched_inv_def Armed_def pauses_def)
  note t = schedule_without_video_stays_idle
      [where s = ?s and t = "Num 7" and t' = "Num 9" and v = 0, THEN mp, OF h(1)]
  from h t [THEN conjunct2] show ?thesis by simp
qed

theorem tick_pauses_once_at_or_after_target_witness:
  "Armed page_armed 1 0 (Num 100) \<and>
   \<not> js_ge (currentTime (elements page_armed 0)) (Num 100) \<and>
   tick 1 page_armed = page_armed \<and>
   js_ge (Num 5000) (Num 100) \<and>
   Idle (tick 1 (step page_armed (Seek 0 (Num 5000)))) \<and>
   pauses (tick 1 (step page_armed (Seek 0 (Num 5000)))) = [PauseCommand 0] \<and>
   Armed (step page_armed (Seek 0 (Num 100))) 1 0 (Num 100) \<and>
   js_ge (currentTime (elements (step page_armed (Seek 0 (Num 100))) 0)) (Num 100) \<and>
   Idle (tick 1 (step page_armed (Seek 0 (Num 100)))) \<and>
   pauses (tick 1 (step page_armed (Seek 0 (Num 100)))) = [PauseCommand 0] \<and>
   tick 1 (tick 1 (step page_armed (Seek 0 (Num 100)))) = tick 1 (step page_armed (Seek 0 (Num 100)))"
proof -
  let ?s = "step page_armed (Seek 0 (Num 100))"
  have a: "Armed page_armed 1 0 (Num 100)" by (rule page_armed_facts)
  have b: "\<not> js_ge (currentTime (elements page_armed 0)) (Num 100)"
    "js_ge (Num 5000) (Num 100)"
    by (simp_all add: page_armed_facts js_ge_def)
  have c: "Armed ?s 1 0 (Num 100)" using a by (simp add: Armed_def)
  have d: "js_ge (currentTime (elements ?s 0)) (Num 100)" by (simp add: js_ge_def)
  have e: "pauses ?s = []" using page_armed_facts(5) by (simp add: pauses_def)
  note t1 = tick_pauses_once_at_or_after_target
      [where s = page_armed and h = 1 and v = 0 and t = "Num 100" and c = "Num 5000"]
  note t2 = tick_pauses_once_at_or_after_target
      [where s = ?s and h = 1 and v = 0 and t = "Num 100" and c = "Num 5000"]
  from t1 a b have
    "tick 1 page_armed = page_armed"
    "Idle (tick 1 (step page_armed (Seek 0 (Num 5000))))"
    "pauses (tick 1 (step page_armed (Seek 0 (Num 5000)))) = pauses page_armed @ [PauseCommand 0]"
    by blast+
  moreover from t2 c d have
    "Idle (tick 1 ?s)" "pauses (tick 1 ?s) = pauses ?s @ [PauseCommand 0]"
    "tick 1 (tick 1 ?s) = tick 1 ?s"
    by blast+
  ultimately show ?thesis
    using a b c d e page_armed_facts(5) by simp
qed

theorem schedule_accepts_any_target_witness:
  "sched_inv page0 \<and> docVideo page0 = Some 0 \<and>
   js_lt (Num (- 5)) (Num 0) \<and> js_ge (currentTime (elements page0 0)) (Num 0) \<and>
   Armed (startPauseTimer (Num (- 5)) page0) 1 0 (Num (- 5)) \<and>
   Idle (tick 1 (startPauseTimer (Num (- 5)) page0)) \<and>
   pauses (tick 1 (startPauseTimer (Num (- 5)) page0)) = [PauseCommand 0] \<and>
   list_all (\<lambda>e. \<not> is_call e) [Tick 1, Seek 0 (Num 1000), Tick 1] \<and>
   Armed (run (startPauseTimer NaN page0) [Tick 1, Seek 0 (Num 1000), Tick 1]) 1 0 NaN \<and>
   pauses (run (startPauseTimer NaN page0) [Tick 1, Seek 0 (Num 1000), Tick 1]) = []"
proof -
  have h: "sched_inv page0" "docVideo page0 = Some 0" by (simp_all add: page0_inv page0_facts)
  have g: "js_lt (Num (- 5)) (Num 0)" "js_ge (currentTime (elements page0 0)) (Num 0)"
    "list_all (\<lambda>e. \<not> is_call e) [Tick 1, Seek 0 (Num 1000), Tick 1]"
    by (simp_all add: page0_facts js_ge_def)
  have p: "pauses page0 = []" "nextHandle page0 = 1"
    by (simp_all add: pauses_def page0_facts)
  from schedule_accepts_any_target
      [OF h, where t = "Num (- 5)" and evs = "[Tick 1, Seek 0 (Num 1000), Tick 1]"]
    g h p
  show ?thesis by simp
qed

theorem rescheduling_retires_the_previous_task_witness:
  "list_all is_env [Seek 0 (Num 50)] \<and> docVideo page0 = Some 0 \<and> sched_inv page0 \<and>
   list_all (\<lambda>e. \<not> is_call e) [Tick 1, Tick 2] \<and>
   js_ge (currentTime (elements (run (startPauseTimer (Num 10) page0) [Seek 0 (Num 50)]) 0))
     (Num 10) \<and>
   pauseIntervalId (run (startPauseTimer (Num 10) page0) [Seek 0 (Num 50)]) = Some 1 \<and>
   1 \<notin> fst ` set (timers (startPauseTimer (Num 100)
                            (run (startPauseTimer (Num 10) page0) [Seek 0 (Num 50)]))) \<and>
   tick 1 (run (startPauseTimer (Num 100)
                  (run (startPauseTimer (Num 10) page0) [Seek 0 (Num 50)]))
             [Tick 2, Schedule (Num 7), Tick 1]) =
     run (startPauseTimer (Num 100)
            (run (startPauseTimer (Num 10) page0) [Seek 0 (Num 50)]))
       [Tick 2, Schedule (Num 7), Tick 1] \<and>
   timers (startPauseTimer (Num 100)
             (run (startPauseTimer (Num 10) page0) [Seek 0 (Num 50)])) = [(2, 0, Num 100)]"
proof -
  let ?s1 = "run (startPauseTimer (Num 10) page0) [Seek 0 (Num 50)]"
  let ?s2 = "startPauseTimer (Num 100) ?s1"
  have h: "list_all is_env [Seek 0 (Num 50)]" "docVideo page0 = Some 0" "sched_inv page0"
    "list_all (\<lambda>e. \<not> is_call e) [Tick 1, Tick 2]" "nextHandle page0 = 1"
    by (simp_all add: is_env_def page0_facts page0_inv)
  have d: "docVideo ?s1 = Some 0"
    by (simp add: run_def start_fields page0_facts)
  have g: "js_ge (currentTime (elements ?s1 0)) (Num 10)"
    by (simp add: run_def js_ge_def)
  from rescheduling_retires_the_previous_task
      [OF h(1) h(2) refl refl, where ?t1.0 = "Num 10" and ?t2.0 = "Num 100"
        and later = "[Tick 2, Schedule (Num 7), Tick 1]" and quiet = "[Tick 1, Tick 2]"]
    h d g
  show ?thesis by simp
qed

text \<open>
  C9. The \<open>togglePanel\<close> message flips the presence of the panel and writes the
  stored flag in the same handler run: after one message, and after any positive
  number of messages, the stored flag is the presence of the panel; the presence after
  \<open>n\<close> messages is the initial one when \<open>n\<close> is even and its negation when \<open>n\<close> is
  odd. \<open>injectPanel\<close> on a page that has the panel only logs; on a page without it,
  it adds the panel. A message with another action changes nothing.
\<close>

theorem toggle_keeps_panel_and_flag_together:
  "panelPresent (onMessage ''togglePanel'' s) = (\<not> panelPresent s) \<and>
   isPanelVisible (onMessage ''togglePanel'' s) =
     Some (panelPresent (onMessage ''togglePanel'' s)) \<and>
   (0 < n \<longrightarrow>
      isPanelVisible ((onMessage ''togglePanel'' ^^ n) s) =
        Some (panelPresent ((onMessage ''togglePanel'' ^^ n) s))) \<and>
   panelPresent ((onMessage ''togglePanel'' ^^ n) s) =
     (if even n then panelPresent s else \<not> panelPresent s) \<and>
   (panelPresent s \<longrightarrow> injectPanel s = emit [ConsoleLog PanelAlreadyExists] s) \<and>
   (\<not> panelPresent s \<longrightarrow> injectPanel s = s\<lparr>panelPresent := True\<rparr>) \<and>
   (action \<noteq> ''togglePanel'' \<longrightarrow> onMessage action s = s)"
proof -
  have one: "panelPresent (onMessage ''togglePanel'' x) = (\<not> panelPresent x) \<and>
      isPanelVisible (onMessage ''togglePanel'' x) =
        Some (panelPresent (onMessage ''togglePanel'' x))" for x
    by (simp add: onMessage_def injectPanel_def)
  have many: "panelPresent ((onMessage ''togglePanel'' ^^ n) s) =
      (if even n then panelPresent s else \<not> panelPresent s)"
    by (induction n) (simp_all add: one)
  have vis: "isPanelVisible ((onMessage ''togglePanel'' ^^ n) s) =
        Some (panelPresent ((onMessage ''togglePanel'' ^^ n) s))" if "0 < n"
    using that by (cases n) (simp_all add: one)
  have inj: "panelPresent s \<longrightarrow> injectPanel s = emit [ConsoleLog PanelAlreadyExists] s"
    "\<not> panelPresent s \<longrightarrow> injectPanel s = s\<lparr>panelPresent := True\<rparr>"
    "action \<noteq> ''togglePanel'' \<longrightarrow> onMessage action s = s"
    by (simp_all add: injectPanel_def onMessage_def)
  from one [of s] many vis inj show ?thesis by blast
qed

theorem toggle_keeps_panel_and_flag_together_witness:
  "\<not> panelPresent page0 \<and> isPanelVisible page0 = None \<and>
   panelPresent (onMessage ''togglePanel'' page0) \<and>
   isPanelVisible (onMessage ''togglePanel'' page0) = Some True \<and>
   (0::nat) < 3 \<and>
   panelPresent ((onMessage ''togglePanel'' ^^ 3) page0) \<and>
   isPanelVisible ((onMessage ''togglePanel'' ^^ 3) page0) = Some True \<and>
   injectPanel page0 = page0\<lparr>panelPresent := True\<rparr> \<and>
   panelPresent (onMessage ''togglePanel'' page0) \<and>
   injectPanel (onMessage ''togglePanel'' page0) =
     emit [ConsoleLog PanelAlreadyExists] (onMessage ''togglePanel'' page0) \<and>
   ''other'' \<noteq> ''togglePanel'' \<and> onMessage ''other'' page0 = page0"
proof -
  have h: "\<not> panelPresent page0" "isPanelVisible page0 = None"
    by (simp_all add: page0_def initial_def)
  note a = toggle_keeps_panel_and_flag_together
      [where s = page0 and n = 3 and action = "''other''"]
  note b = toggle_keeps_panel_and_flag_together
      [where s = "onMessage ''togglePanel'' page0" and n = 3 and action = "''other''"]
  from a b h show ?thesis by simp
qed

lemma sched_inv_step:
  assumes "sched_inv s"
  shows "sched_inv (step s e)"
proof (cases "is_call e")
  case True
  then show ?thesis
  proof (cases e)
    case (Schedule t)
    show ?thesis
    proof (cases "docVideo s")
      case None
      with assms have "Idle (startPauseTimer t s)" by (rule start_idle)
      then show ?thesis by (simp add: Schedule inv_cases)
    next
      case (Some v)
      with assms have "Armed (startPauseTimer t s) (nextHandle s) v t" by (rule start_armed)
      then show ?thesis unfolding Schedule step.simps inv_cases by blast
    qed
  next
    case Cancel
    from assms have "Idle (stopPauseTimer s)" by (rule stop_inv_idle)
    then show ?thesis by (simp add: Cancel inv_cases)
  qed simp_all
next
  case False
  from assms consider "Idle s" | h v t where "Armed s h v t"
    unfolding inv_cases by blast
  then show ?thesis
  proof cases
    case 1
    then have "Idle (step s e)" using False by (rule idle_step)
    then show ?thesis by (simp add: inv_cases)
  next
    case 2
    then have "Armed s h v t \<or> Idle s" by simp
    then have "Armed (step s e) h v t \<or> Idle (step s e)"
      using False by (rule noncall_step_armed_or_idle)
    then show ?thesis unfolding inv_cases by blast
  qed
qed

text \<open>
  In every state the content script reaches from its start, through calls of the
  scheduler, ticks and changes of the page, the active intervals are exactly the one
  whose handle is in the slot, or none when the slot is null: the scheduler is Idle or
  Armed.
\<close>

theorem scheduler_has_at_most_one_interval:
  "sched_inv (run (initial dv els vis) evs)"
proof -
  have "sched_inv (initial dv els vis)" by (simp add: sched_inv_def initial_def)
  then show ?thesis
    unfolding run_def by (induction evs arbitrary: dv els vis rule: rev_induct)
      (simp_all add: sched_inv_step)
qed

section \<open>Formatting a duration\<close>

lemma fmod_nonneg: "0 \<le> x \<Longrightarrow> fmod x c = x - c * of_int \<lfloor>x / c\<rfloor>"
  by (simp add: fmod_def)

lemma fmod_bounds:
  assumes "0 \<le> x" "0 < c"
  shows "0 \<le> fmod x c" "fmod x c < c"
proof -
  have "of_int \<lfloor>x / c\<rfloor> * c \<le> x" using assms(2) by (rule floor_divide_lower)
  then show "0 \<le> fmod x c" using assms(1) by (simp add: fmod_nonneg mult.commute)
  have "x < (of_int \<lfloor>x / c\<rfloor> + 1) * c" using assms(2) by (rule floor_divide_upper)
  then show "fmod x c < c" using assms(1) by (simp add: fmod_nonneg algebra_simps)
qed

lemma fmod_fmod:
  assumes "0 \<le> s"
  shows "fmod (fmod s 3600) 60 = fmod s 60"
proof -
  define k where "k = \<lfloor>s / 3600\<rfloor>"
  have r: "fmod s 3600 = s - 3600 * of_int k" using assms by (simp add: fmod_nonneg k_def)
  have nn: "0 \<le> fmod s 3600" using assms by (simp add: fmod_bounds)
  have "(s - 3600 * of_int k) / 60 = s / 60 - of_int (60 * k)" by simp
  then have fl: "\<lfloor>(s - 3600 * of_int k) / 60\<rfloor> = \<lfloor>s / 60\<rfloor> - 60 * k"
    by (simp only: floor_diff_of_int)
  have "fmod (fmod s 3600) 60 = fmod s 3600 - 60 * of_int \<lfloor>fmod s 3600 / 60\<rfloor>"
    using nn by (rule fmod_nonneg)
  also have "\<dots> = (s - 3600 * of_int k) - 60 * of_int \<lfloor>(s - 3600 * of_int k) / 60\<rfloor>"
    by (simp only: r)
  also have "\<dots> = (s - 3600 * of_int k) - 60 * of_int (\<lfloor>s / 60\<rfloor> - 60 * k)"
    by (simp only: fl)
  also have "\<dots> = s - 60 * of_int \<lfloor>s / 60\<rfloor>" by simp
  also have "\<dots> = fmod s 60" using assms by (simp add: fmod_nonneg)
  finally show ?thesis .
qed

lemma minutes_bounds:
  assumes "0 \<le> s"
  shows "0 \<le> \<lfloor>fmod s 3600 / 60\<rfloor>" "\<lfloor>fmod s 3600 / 60\<rfloor> \<le> 59"
proof -
  have b: "0 \<le> fmod s 3600" "fmod s 3600 < 3600" using assms by (simp_all add: fmod_bounds)
  then show "0 \<le> \<lfloor>fmod s 3600 / 60\<rfloor>" by simp
  from b have "fmod s 3600 / 60 < 60" by simp
  then have "\<lfloor>fmod s 3600 / 60\<rfloor> < 60" by (simp add: floor_less_iff)
  then show "\<lfloor>fmod s 3600 / 60\<rfloor> \<le> 59" by simp
qed

lemma seconds_bounds:
  assumes "0 \<le> s"
  shows "0 \<le> round (fmod s 60)" "round (fmod s 60) \<le> 60"
    "round (fmod s 60) = 60 \<longleftrightarrow> 119 / 2 \<le> fmod s 60"
proof -
  have b: "0 \<le> fmod s 60" "fmod s 60 < 60" using assms by (simp_all add: fmod_bounds)
  have r: "round (fmod s 60) = \<lfloor>fmod s 60 + 1 / 2\<rfloor>" by (simp add: round_def)
  from b show "0 \<le> round (fmod s 60)" by (simp add: r)
  from b have "fmod s 60 + 1 / 2 < 61" by simp
  then have "\<lfloor>fmod s 60 + 1 / 2\<rfloor> < 61" by (simp add: floor_less_iff)
  then show le: "round (fmod s 60) \<le> 60" by (simp add: r)
  have "60 \<le> \<lfloor>fmod s 60 + 1 / 2\<rfloor> \<longleftrightarrow> 60 \<le> fmod s 60 + 1 / 2"
    by (simp add: le_floor_iff)
  also have "\<dots> \<longleftrightarrow> 119 / 2 \<le> fmod s 60" by auto
  finally show "round (fmod s 60) = 60 \<longleftrightarrow> 119 / 2 \<le> fmod s 60"
    using le by (simp add: r) linarith
qed

lemma hours_bounds:
  assumes "0 \<le> s" "s < 3600 * 10 ^ 21"
  shows "0 \<le> \<lfloor>s / 3600\<rfloor>" "\<lfloor>s / 3600\<rfloor> < 10 ^ 21"
proof -
  from assms(1) show "0 \<le> \<lfloor>s / 3600\<rfloor>" by simp
  from assms(2) have "s / 3600 < 10 ^ 21" by simp
  then have "s / 3600 < of_int (10 ^ 21)" by simp
  then show "\<lfloor>s / 3600\<rfloor> < 10 ^ 21" by (simp only: floor_less_iff)
qed

lemma js_String_int:
  assumes "0 \<le> k" "k < 10 ^ 21"
  shows "js_String (Num (of_int k)) = Some (show_nat (nat k))"
proof -
  have "\<bar>(of_int k :: real)\<bar> < 10 ^ 21"
  proof -
    have "(of_int k :: real) < of_int (10 ^ 21)" using assms(2) by (simp only: of_int_less_iff)
    then show ?thesis using assms(1) by simp
  qed
  then show ?thesis using assms(1) by simp
qed

lemma show_nat_lt10: "n < 10 \<Longrightarrow> show_nat n = [digit_char n]"
  by (subst show_nat.simps) simp

lemma show_nat_lt100:
  assumes "10 \<le> n" "n < 100"
  shows "show_nat n = [digit_char (n div 10), digit_char (n mod 10)]"
proof -
  from assms have "n div 10 < 10" by simp
  then have "show_nat (n div 10) = [digit_char (n div 10)]" by (rule show_nat_lt10)
  then show ?thesis using assms(1) by (subst show_nat.simps) simp
qed

lemma digit_char_0: "digit_char 0 = CHR ''0''"
  by code_simp

lemma padStart2_show_nat:
  assumes "n < 100"
  shows "padStart2 (show_nat n) = [digit_char (n div 10), digit_char (n mod 10)]"
proof (cases "n < 10")
  case True
  then show ?thesis by (simp add: show_nat_lt10 padStart2_def digit_char_0)
next
  case False
  then show ?thesis using assms by (simp add: show_nat_lt100 padStart2_def)
qed

lemma array3:
  assumes "0 \<le> h" "h < 10 ^ 21" "0 \<le> m" "m < 10 ^ 21" "0 \<le> sec" "sec < 10 ^ 21"
  shows "arrayToTimestamp [Num (of_int h), Num (of_int m), Num (of_int sec)] =
    Some (if 0 < h
          then show_nat (nat h) @ '':'' @ padStart2 (show_nat (nat m)) @ '':'' @
                 padStart2 (show_nat (nat sec))
          else show_nat (nat m) @ '':'' @ padStart2 (show_nat (nat sec)))"
proof -
  note s = js_String_int [OF assms(1,2)] js_String_int [OF assms(3,4)] js_String_int [OF assms(5,6)]
  show ?thesis
    unfolding arrayToTimestamp_def unshift_zeros_3 Let_def
    by (simp add: s js_gt_def del: js_String.simps)
qed

lemma at_most_sixty_prints: "(k::int) \<le> 60 \<Longrightarrow> k < 10 ^ 21"
  by simp

lemma default_general:
  assumes "0 \<le> s" "s < 3600 * 10 ^ 21"
  shows "defaultTimestamp (Num s) =
    Some (if 0 < \<lfloor>s / 3600\<rfloor>
          then show_nat (nat \<lfloor>s / 3600\<rfloor>) @ '':'' @
                 padStart2 (show_nat (nat \<lfloor>fmod s 3600 / 60\<rfloor>)) @ '':'' @
                 padStart2 (show_nat (nat (round (fmod s 60))))
          else show_nat (nat \<lfloor>fmod s 3600 / 60\<rfloor>) @ '':'' @
                 padStart2 (show_nat (nat (round (fmod s 60)))))"
proof -
  have m: "\<lfloor>fmod s 3600 / 60\<rfloor> < 10 ^ 21"
    using minutes_bounds(2) [OF assms(1)] by (intro at_most_sixty_prints) simp
  have c: "round (fmod s 60) < 10 ^ 21"
    using seconds_bounds(2) [OF assms(1)] by (rule at_most_sixty_prints)
  have "defaultTimestamp (Num s) =
      arrayToTimestamp [Num (of_int \<lfloor>s / 3600\<rfloor>), Num (of_int \<lfloor>fmod s 3600 / 60\<rfloor>),
        Num (of_int (round (fmod s 60)))]"
    by (simp add: defaultTimestamp_def round_def)
  also note array3 [OF hours_bounds [OF assms] minutes_bounds(1) [OF assms(1)] m
      seconds_bounds(1) [OF assms(1)] c]
  finally show ?thesis .
qed

lemma percentage_100:
  assumes "0 \<le> s"
  shows "percentageOfTimestamp (Num s) (Num 100) = defaultTimestamp (Num s)"
  using assms
  by (simp add: percentageOfTimestamp_def defaultTimestamp_def js_gt_def fmod_fmod)



lemma all_digits:
  "list_all (\<lambda>c. digit_val c \<le> 9 \<and> digit_char (digit_val c) = c \<and>
      (digit_val c = 0 \<longleftrightarrow> c = CHR ''0'')) ''0123456789''"
  by code_simp

lemma digit_facts:
  assumes "is_digit c"
  shows "digit_val c \<le> 9" "digit_char (digit_val c) = c" "digit_val c = 0 \<longleftrightarrow> c = CHR ''0''"
proof -
  from assms have "c \<in> set ''0123456789''" by (simp only: is_digit_def)
  with all_digits [unfolded list_all_iff]
  have "digit_val c \<le> 9 \<and> digit_char (digit_val c) = c \<and>
      (digit_val c = 0 \<longleftrightarrow> c = CHR ''0'')"
    by (rule bspec)
  then show "digit_val c \<le> 9" "digit_char (digit_val c) = c"
    "digit_val c = 0 \<longleftrightarrow> c = CHR ''0''"
    by simp_all
qed

lemma dec_val_1: "dec_val [a] = digit_val a"
  by (simp add: dec_val_def)

lemma dec_val_2: "dec_val [a, b] = 10 * digit_val a + digit_val b"
  by (simp add: dec_val_def)

lemma show_two_digits:
  assumes "is_digit a" "is_digit b"
  shows "padStart2 (show_nat (dec_val [a, b])) = [a, b]"
    "show_nat (dec_val [a, b]) = (if a = CHR ''0'' then [b] else [a, b])"
proof -
  note A = digit_facts [OF assms(1)] and B = digit_facts [OF assms(2)]
  let ?n = "10 * digit_val a + digit_val b"
  have lt: "?n < 100" using A(1) B(1) by simp
  have d: "?n div 10 = digit_val a" "?n mod 10 = digit_val b" using B(1) by simp_all
  show "padStart2 (show_nat (dec_val [a, b])) = [a, b]"
    by (simp only: dec_val_2 padStart2_show_nat [OF lt] d A(2) B(2))
  show "show_nat (dec_val [a, b]) = (if a = CHR ''0'' then [b] else [a, b])"
  proof (cases "a = CHR ''0''")
    case True
    then have "digit_val a = 0" using A(3) by simp
    then have "?n = digit_val b" by simp
    then have "show_nat ?n = [b]" using B(1) B(2) by (simp add: show_nat_lt10)
    with True show ?thesis by (simp add: dec_val_2)
  next
    case False
    then have "digit_val a \<noteq> 0" using A(3) by simp
    then have "10 \<le> ?n" by simp
    from show_nat_lt100 [OF this lt] have "show_nat ?n = [a, b]"
      by (simp only: d A(2) B(2))
    with False show ?thesis by (simp add: dec_val_2)
  qed
qed

lemma show_one_digit:
  assumes "is_digit a"
  shows "show_nat (dec_val [a]) = [a]"
  using digit_facts [OF assms] by (simp add: dec_val_1 show_nat_lt10)

lemma default_nat:
  assumes "n < 3600"
  shows "defaultTimestamp (Num (of_nat n)) =
    Some (show_nat (n div 60) @ '':'' @ padStart2 (show_nat (n mod 60)))"
proof -
  have s: "0 \<le> (of_nat n :: real)" "(of_nat n :: real) < 3600 * 10 ^ 21"
  proof -
    show "0 \<le> (of_nat n :: real)" by simp
    have "(of_nat n :: real) < 3600" using assms by simp
    then show "(of_nat n :: real) < 3600 * 10 ^ 21" by simp
  qed
  have h: "\<lfloor>(of_nat n :: real) / 3600\<rfloor> = 0"
    using assms by (simp add: floor_eq_iff)
  have f: "fmod (of_nat n) 3600 = of_nat n" by (simp add: fmod_nonneg h)
  have "\<lfloor>(of_nat n :: real) / of_nat 60\<rfloor> = of_nat (n div 60)"
    by (rule floor_divide_of_nat_eq)
  then have m: "\<lfloor>(of_nat n :: real) / 60\<rfloor> = int (n div 60)" by simp
  have "(of_nat n :: real) = of_nat (60 * (n div 60) + n mod 60)" by simp
  then have "(of_nat n :: real) - 60 * of_int (int (n div 60)) = of_nat (n mod 60)"
    by (simp only: of_nat_add of_nat_mult of_int_of_nat_eq)
  then have g: "fmod (of_nat n) 60 = of_nat (n mod 60)"
    by (simp add: fmod_nonneg m)
  have r: "round (fmod (of_nat n) 60) = int (n mod 60)"
    by (simp only: g round_of_nat)
  from default_general [OF s] show ?thesis
    by (simp add: h f m r)
qed













lemma totalSeconds_nat:
  "totalSeconds [Num 0, Num (of_nat a), Num (of_nat b)] = Num (of_nat (a * 60 + b))"
  by (simp add: totalSeconds_def)

text \<open>
  C7 as stated covers \<open>05:07\<close>, a valid two-part timestamp with both fields in range.
  It is read as 307 seconds, and 307 seconds are formatted as \<open>5:07\<close>.
\<close>

theorem round_trip_fails_on_a_padded_minute:
  "isValidHMSFormat ''05:07'' \<and> shape_MS ''05'' ''07'' \<and>
   dec_val ''05'' \<le> 59 \<and> dec_val ''07'' \<le> 59 \<and>
   timestampToArray ''05:07'' = Some [Num 0, Num 5, Num 7] \<and>
   totalSeconds [Num 0, Num 5, Num 7] = Num 307 \<and>
   defaultTimestamp (Num 307) = Some ''5:07'' \<and>
   percentageOfTimestamp (Num 307) (Num 100) = Some ''5:07'' \<and>
   ''5:07'' \<noteq> ''05:07''"
proof -
  have a: "isValidHMSFormat ''05:07''" by code_simp
  have b: "shape_MS ''05'' ''07''" by (simp add: shape_MS_def is_digit_def)
  have c: "dec_val ''05'' \<le> 59" "dec_val ''07'' \<le> 59" by (simp_all add: dec_val_def digit_val_def)
  have d: "timestampToArray ''05:07'' = Some [Num 0, Num 5, Num 7]" by code_simp
  have e: "totalSeconds [Num 0, Num 5, Num 7] = Num 307" by (simp add: totalSeconds_def)
  have f: "defaultTimestamp (Num 307) = Some ''5:07''" by code_simp
  have g: "percentageOfTimestamp (Num 307) (Num 100) = Some ''5:07''" by code_simp
  have h: "''5:07'' \<noteq> ''05:07''" by simp
  show ?thesis by (intro conjI a b c d e f g h)
qed

text \<open>
  C7, as the code has it. For a timestamp of the two-part shape whose minutes and
  seconds are at most 59: \<open>timestampToArray\<close> gives zero hours and the two values,
  the total is minutes times 60 plus seconds (exact), and the text formatted from that
  total is the timestamp itself, unless its minutes field has two digits and starts with
  \<open>0\<close>; then the formatted text is the timestamp without that leading \<open>0\<close>.
\<close>

theorem round_trip_of_two_part_timestamps:
  assumes "shape_MS m sec" "dec_val m \<le> 59" "dec_val sec \<le> 59"
  shows "timestampToArray (m @ '':'' @ sec) =
      Some [Num 0, Num (of_nat (dec_val m)), Num (of_nat (dec_val sec))] \<and>
    totalSeconds [Num 0, Num (of_nat (dec_val m)), Num (of_nat (dec_val sec))] =
      Num (of_nat (dec_val m * 60 + dec_val sec)) \<and>
    defaultTimestamp (Num (of_nat (dec_val m * 60 + dec_val sec))) =
      Some (if length m = 2 \<and> hd m = CHR ''0'' then tl m @ '':'' @ sec
            else m @ '':'' @ sec) \<and>
    percentageOfTimestamp (Num (of_nat (dec_val m * 60 + dec_val sec))) (Num 100) =
      Some (if length m = 2 \<and> hd m = CHR ''0'' then tl m @ '':'' @ sec
            else m @ '':'' @ sec)"
proof -
  let ?n = "dec_val m * 60 + dec_val sec"
  have p: "timestampToArray (m @ '':'' @ sec) =
      Some [Num 0, Num (of_nat (dec_val m)), Num (of_nat (dec_val sec))]"
    using assms(1) timestampToArray_MS [of m sec] by (simp add: shape_MS_def)
  have lt: "?n < 3600" using assms(2,3) by simp
  have dm: "?n div 60 = dec_val m" "?n mod 60 = dec_val sec" using assms(3) by simp_all
  from assms(1) obtain c d where sec: "sec = [c, d]" "is_digit c" "is_digit d"
    by (auto simp: shape_MS_def length_Suc_conv numeral_2_eq_2)
  have ps: "padStart2 (show_nat (dec_val sec)) = sec"
    using show_two_digits(1) [OF sec(2,3)] by (simp only: sec(1))
  have sm: "show_nat (dec_val m) =
      (if length m = 2 \<and> hd m = CHR ''0'' then tl m else m)"
  proof (cases "length m = 2")
    case True
    with assms(1) obtain a b where m: "m = [a, b]" "is_digit a" "is_digit b"
      by (auto simp: shape_MS_def length_Suc_conv numeral_2_eq_2)
    from show_two_digits(2) [OF m(2,3)] show ?thesis by (simp add: m(1))
  next
    case False
    with assms(1) have "length m = 1" by (simp add: shape_MS_def)
    with assms(1) obtain a where m: "m = [a]" "is_digit a"
      by (auto simp: shape_MS_def length_Suc_conv)
    from show_one_digit [OF m(2)] show ?thesis by (simp add: m(1))
  qed
  have f: "defaultTimestamp (Num (of_nat ?n)) =
      Some (if length m = 2 \<and> hd m = CHR ''0'' then tl m @ '':'' @ sec
            else m @ '':'' @ sec)"
    using default_nat [OF lt] by (simp only: dm ps sm) simp
  have g: "percentageOfTimestamp (Num (of_nat ?n)) (Num 100) = defaultTimestamp (Num (of_nat ?n))"
    by (rule percentage_100) simp
  show ?thesis
    by (intro conjI p totalSeconds_nat f) (simp only: g f)
qed

theorem round_trip_of_two_part_timestamps_witness:
  "shape_MS ''12'' ''05'' \<and> dec_val ''12'' \<le> 59 \<and> dec_val ''05'' \<le> 59 \<and>
   timestampToArray ''12:05'' = Some [Num 0, Num 12, Num 5] \<and>
   totalSeconds [Num 0, Num 12, Num 5] = Num 725 \<and>
   defaultTimestamp (Num 725) = Some ''12:05'' \<and>
   percentageOfTimestamp (Num 725) (Num 100) = Some ''12:05''"
proof -
  have h: "shape_MS ''12'' ''05''" "dec_val ''12'' \<le> 59" "dec_val ''05'' \<le> 59"
    by (simp_all add: shape_MS_def is_digit_def dec_val_def digit_val_def)
  have v: "dec_val ''12'' = 12" "dec_val ''05'' = 5"
    by (simp_all add: dec_val_def digit_val_def)
  from round_trip_of_two_part_timestamps [OF h] h show ?thesis
    by (simp add: v)
qed

end
